theory Spec2Isabelle
  imports Complex_Main "HOL-Library.Multiset"
begin

section \<open>The frequency specification widget of pyfda (input\_widgets/freq\_specs.py)\<close>

text \<open>
  The widget \<^verbatim>\<open>FreqSpecs\<close> keeps the frequency specifications of a filter
  (\<^verbatim>\<open>F_SB\<close>, \<^verbatim>\<open>F_PB\<close>, ...) in the global filter dictionary
  \<^verbatim>\<open>fb.fil[0]\<close>, normalised to the sampling frequency \<^verbatim>\<open>f_S\<close>, and shows them in a
  column of line edits.

  Conventions of the embedding:
  \<^item> Python floats are the real numbers: rounding, overflow and NaN are not modelled.
  \<^item> A division by zero ends a run of the embedding with \<open>Division_by_zero\<close>. The
    program raises \<^verbatim>\<open>ZeroDivisionError\<close> there when the operands are Python floats and
    goes on with \<^verbatim>\<open>inf\<close> or \<^verbatim>\<open>nan\<close> when one is a \<^verbatim>\<open>numpy.float64\<close>; the sources do
    not fix which of the two an entry of the dictionary is. What the embedding returns
    after a division by zero therefore says nothing about the program.
  \<^item> An exception is a value: every method returns the exception it raised, if any,
    together with the state at that moment, since what was written to the dictionary
    or to a widget before the exception stays written.
  \<^item> The label widgets, the tool tips, the unit label and the tracing calls of the
    logger only render text (through \<^verbatim>\<open>to_html\<close>); they are left out. The warnings
    that report an invalid value are kept.
\<close>

subsection \<open>Data\<close>

datatype error =
    KeyError string
  | IndexError
  | Division_by_zero
  | AttributeError
  | ParseError

text \<open>
  The text of a line edit. \<open>Str s\<close> is the string \<open>s\<close>, typed by the user or produced by
  \<^verbatim>\<open>params['FMT'].format\<close>; \<open>Repr x\<close> is \<^verbatim>\<open>str(x)\<close> for the float \<open>x\<close>, which Python
  prints so that it reads back as \<open>x\<close>.
\<close>

datatype qtext = Str string | Repr real

text \<open>
  The entries of \<^verbatim>\<open>fb.fil[0]\<close> that the widget uses. The float entries share one
  dictionary, \<open>nums\<close>: the sampling frequency \<^verbatim>\<open>'f_S'\<close>, its previous value
  \<^verbatim>\<open>'f_S_prev'\<close> and the frequency specifications, which are looked up under the object
  names of the line edits. The flags and the unit names are typed fields.
\<close>

record fil =
  nums :: "string \<rightharpoonup> real"
  freq_locked :: bool
  freq_specs_sort :: bool
  plt_fUnit :: string
  freq_specs_unit :: string

text \<open>
  A \<^verbatim>\<open>QLineEdit\<close>: its object name, its text, its style property \<^verbatim>\<open>"state"\<close>, whether
  it has the input focus and whether it is shown. Qt sets the focus and the typed text
  itself; the widget code only reads them.
\<close>

record line_edit =
  objectName :: string
  wtext :: qtext
  wstate :: string
  hasFocus :: bool
  visible :: bool

datatype signal = Specs_changed_f_specs

datatype logmsg =
    Has_to_be_ge_0 string
  | Has_to_be_lt_half string
  | Must_differ real

text \<open>
  The widget together with the filter dictionary it works on. \<open>data_prev\<close> is
  \<open>None\<close> until the first \<^verbatim>\<open>FocusIn\<close> event creates the attribute.
\<close>

record freq_specs =
  fil0 :: fil
  qlineedit :: "line_edit list"
  n_cur_labels :: nat
  spec_edited :: bool
  data_prev :: "qtext option"
  emitted :: "signal list"
  logged :: "logmsg list"

definition MIN_FREQ_STEP :: real where
  "MIN_FREQ_STEP = 1 / 10000"

text \<open>\<^verbatim>\<open>FreqSpecs.__init__\<close> and \<^verbatim>\<open>_construct_UI\<close>: no line edits yet.\<close>

definition init :: "fil \<Rightarrow> freq_specs" where
  "init fl = \<lparr>fil0 = fl, qlineedit = [], n_cur_labels = 0, spec_edited = False,
     data_prev = None, emitted = [], logged = []\<rparr>"

subsection \<open>Helpers of pyfda.libs.pyfda\_lib\<close>

text \<open>
  Modelled from the spec: \<^verbatim>\<open>safe_eval\<close> of pyfda.libs.pyfda\_lib, which evaluates the text
  of an edit, is not among the sources. The methods that call it take it as a parameter
  (see \<open>entry_value\<close>); \<open>safe_eval_pos\<close> below is the function as the spec describes it,
  for the examples. According to the spec the raw text is parsed as a signed real
  number. The model reads a decimal number: an optional sign, digits, and an optional
  fraction.
\<close>

definition digit_of :: "char \<Rightarrow> nat option" where
  "digit_of =
     map_of [(CHR ''0'', 0), (CHR ''1'', 1), (CHR ''2'', 2), (CHR ''3'', 3), (CHR ''4'', 4),
             (CHR ''5'', 5), (CHR ''6'', 6), (CHR ''7'', 7), (CHR ''8'', 8), (CHR ''9'', 9)]"

fun digits_val :: "string \<Rightarrow> nat \<Rightarrow> nat option" where
  "digits_val [] acc = Some acc"
| "digits_val (c # cs) acc =
     (case digit_of c of None \<Rightarrow> None | Some d \<Rightarrow> digits_val cs (10 * acc + d))"

definition parse_unsigned :: "string \<Rightarrow> real option" where
  "parse_unsigned s =
     (let ip = takeWhile (\<lambda>c. c \<noteq> CHR ''.'') s;
          fp = drop 1 (dropWhile (\<lambda>c. c \<noteq> CHR ''.'') s)
      in if ip = [] \<and> fp = [] then None
         else (case digits_val ip 0 of
                 None \<Rightarrow> None
               | Some a \<Rightarrow>
                   (case digits_val fp 0 of
                      None \<Rightarrow> None
                    | Some b \<Rightarrow> Some (real a + real b / 10 ^ length fp))))"

definition parse_real :: "string \<Rightarrow> real option" where
  "parse_real s =
     (case s of
        [] \<Rightarrow> None
      | c # cs \<Rightarrow>
          if c = CHR ''-'' then map_option uminus (parse_unsigned cs)
          else if c = CHR ''+'' then parse_unsigned cs
          else parse_unsigned s)"

text \<open>
  Modelled from the spec: the number that the text of a line edit denotes, if any. The
  text \<^verbatim>\<open>str(x)\<close> denotes \<open>x\<close>.
\<close>

fun eval_text :: "qtext \<Rightarrow> real option" where
  "eval_text (Str s) = parse_real s"
| "eval_text (Repr x) = Some x"

text \<open>
  Modelled from the spec: the sign constraint of \<^verbatim>\<open>safe_eval(..., sign='pos')\<close>. A text
  that is not a valid real number or fails the required sign constraint is a parse
  error and has no value.
\<close>

definition pos_value :: "qtext \<Rightarrow> real option" where
  "pos_value t =
     (case eval_text t of None \<Rightarrow> None | Some x \<Rightarrow> if 0 < x then Some x else None)"

text \<open>
  Modelled from the spec: \<^verbatim>\<open>safe_eval(expr, alt_expr, sign='pos')\<close>. According to the spec
  the result is either the value or a parse failure, for a raw input that is not a valid
  real number or fails the required sign constraint.
\<close>

definition safe_eval_pos :: "qtext \<Rightarrow> qtext \<Rightarrow> error + real" where
  "safe_eval_pos expr alt_expr =
     (case pos_value expr of Some x \<Rightarrow> Inr x | None \<Rightarrow> Inl ParseError)"

text \<open>
  Modelled from the spec: the grouping of \<^verbatim>\<open>unique_roots\<close> of pyfda.libs.pyfda\_lib, which
  is not among the sources. According to the spec near-duplicates are found by sorting
  the values, then comparing consecutive gaps, grouping together any run where
  consecutive gaps are all below the threshold. \<open>runs\<close> cuts a sorted list into these
  runs.
\<close>

fun runs :: "real \<Rightarrow> real list \<Rightarrow> real list list" where
  "runs tol [] = []"
| "runs tol [x] = [[x]]"
| "runs tol (x # y # zs) =
     (if \<bar>y - x\<bar> < tol
      then (case runs tol (y # zs) of [] \<Rightarrow> [[x]] | g # gs \<Rightarrow> (x # g) # gs)
      else [x] # runs tol (y # zs))"

text \<open>
  Modelled from the spec: \<^verbatim>\<open>unique_roots(p, tol)\<close> returns one value and the multiplicity
  of every group; the widget uses the multiplicities only.
\<close>

definition unique_roots :: "real list \<Rightarrow> real \<Rightarrow> real list \<times> nat list" where
  "unique_roots p tol = (let gs = runs tol (sort p) in (map hd gs, map length gs))"

text \<open>
  Modelled from the spec: \<^verbatim>\<open>check_separation\<close>, the indices of the values that are in
  a near-duplicate group, that is in a run of more than one value of the sorted list.
\<close>

definition in_group :: "real \<Rightarrow> real list \<Rightarrow> real \<Rightarrow> bool" where
  "in_group tol xs x = (\<exists>g \<in> set (runs tol xs). x \<in> set g \<and> 1 < length g)"

definition check_separation :: "real list \<Rightarrow> real \<Rightarrow> nat set" where
  "check_separation p min_step = {i. i < length p \<and> in_group min_step (sort p) (p ! i)}"

text \<open>
  Modelled from the spec: two values are a collision if their absolute difference is
  less than the threshold; \<open>x\<close> collides in \<open>xs\<close> when it does so with another element
  of \<open>xs\<close>.
\<close>

definition collides :: "real \<Rightarrow> real list \<Rightarrow> real \<Rightarrow> bool" where
  "collides tol xs x = (\<exists>w \<in> set (remove1 x xs). \<bar>x - w\<bar> < tol)"

subsection \<open>Display of one entry\<close>

text \<open>\<^verbatim>\<open>str(source.objectName()).split(':', 1)[0]\<close>\<close>

definition f_label_of :: "string \<Rightarrow> string" where
  "f_label_of name = takeWhile (\<lambda>c. c \<noteq> CHR '':'') name"

definition lookup :: "fil \<Rightarrow> string \<Rightarrow> error + real" where
  "lookup fl k = (case nums fl k of None \<Rightarrow> Inl (KeyError k) | Some v \<Rightarrow> Inr v)"

text \<open>
  \<^verbatim>\<open>update_f_display(source)\<close>: show the stored value times \<^verbatim>\<open>f_S\<close> (line 258:
  \<^verbatim>\<open>f_value = fb.fil[0][f_label] * fb.fil[0]['f_S']\<close>), with full precision when the
  widget has the focus and formatted with \<^verbatim>\<open>params['FMT']\<close> otherwise, and mark the
  widget when the stored value is outside \<open>]0, 0.5[\<close>. \<^verbatim>\<open>params\<close> comes from
  pyfda.pyfda\_rc, so the formatting function \<open>FMT\<close> is a parameter. Both
  \<^verbatim>\<open>setProperty("state", ...)\<close> and \<^verbatim>\<open>qstyle_widget\<close> set the property \<^verbatim>\<open>"state"\<close>.
\<close>

definition update_f_display ::
  "(real \<Rightarrow> string) \<Rightarrow> fil \<Rightarrow> line_edit \<Rightarrow> error + (line_edit \<times> logmsg list)" where
  "update_f_display FMT fl source =
     (let f_label = f_label_of (objectName source) in
      case lookup fl f_label of
        Inl e \<Rightarrow> Inl e
      | Inr v \<Rightarrow>
          (case lookup fl ''f_S'' of
             Inl e \<Rightarrow> Inl e
           | Inr fs \<Rightarrow>
               (let f_value = v * fs;
                    shown = source\<lparr>wtext := (if hasFocus source then Repr f_value
                                               else Str (FMT f_value))\<rparr>
                in if v \<le> 0
                   then Inr (shown\<lparr>wstate := ''failed''\<rparr>, [Has_to_be_ge_0 (objectName source)])
                   else if 1 / 2 \<le> v
                   then Inr (shown\<lparr>wstate := ''failed''\<rparr>,
                             [Has_to_be_lt_half (objectName source)])
                   else Inr (shown\<lparr>wstate := ''normal''\<rparr>, []))))"

text \<open>
  \<^verbatim>\<open>load_dict()\<close>: \<^verbatim>\<open>update_f_display\<close> for every line edit, the hidden ones too. The
  first exception ends the loop; the line edits before it are updated.
\<close>

fun load_list ::
  "(real \<Rightarrow> string) \<Rightarrow> fil \<Rightarrow> line_edit list \<Rightarrow> error option \<times> line_edit list \<times> logmsg list" where
  "load_list FMT fl [] = (None, [], [])"
| "load_list FMT fl (w # ws) =
     (case update_f_display FMT fl w of
        Inl e \<Rightarrow> (Some e, w # ws, [])
      | Inr (w', msgs) \<Rightarrow>
          (case load_list FMT fl ws of
             (e, ws', msgs') \<Rightarrow> (e, w' # ws', msgs @ msgs')))"

definition load_dict :: "(real \<Rightarrow> string) \<Rightarrow> freq_specs \<Rightarrow> error option \<times> freq_specs" where
  "load_dict FMT s =
     (case load_list FMT (fil0 s) (qlineedit s) of
        (e, ws, msgs) \<Rightarrow> (e, s\<lparr>qlineedit := ws, logged := logged s @ msgs\<rparr>))"

subsection \<open>Sorting the visible entries\<close>

text \<open>
  \<^verbatim>\<open>[fb.fil[0][str(self.qlineedit[i].objectName())] for i in range(self.n_cur_labels)]\<close>:
  \<open>read_specs\<close> reads the dictionary under the names of the first \<open>n\<close> line edits; an
  index beyond the list of line edits raises \<^verbatim>\<open>IndexError\<close>.
\<close>

fun read_specs :: "fil \<Rightarrow> string list \<Rightarrow> error + real list" where
  "read_specs fl [] = Inr []"
| "read_specs fl (k # ks) =
     (case lookup fl k of
        Inl e \<Rightarrow> Inl e
      | Inr v \<Rightarrow> (case read_specs fl ks of Inl e \<Rightarrow> Inl e | Inr vs \<Rightarrow> Inr (v # vs)))"

definition visible_names :: "freq_specs \<Rightarrow> string list" where
  "visible_names s = map objectName (take (n_cur_labels s) (qlineedit s))"

definition read_visible :: "freq_specs \<Rightarrow> error + real list" where
  "read_visible s =
     (case read_specs (fil0 s) (visible_names s) of
        Inl e \<Rightarrow> Inl e
      | Inr vs \<Rightarrow> if length (qlineedit s) < n_cur_labels s then Inl IndexError else Inr vs)"

text \<open>\<^verbatim>\<open>for i in range(self.n_cur_labels): fb.fil[0][name_i] = f_specs[i]\<close>\<close>

fun write_specs :: "(string \<rightharpoonup> real) \<Rightarrow> string list \<Rightarrow> real list \<Rightarrow> (string \<rightharpoonup> real)" where
  "write_specs m (k # ks) (v # vs) = write_specs (m(k \<mapsto> v)) ks vs"
| "write_specs m _ _ = m"

definition ident :: "real list \<Rightarrow> nat list" where
  "ident f_specs = filter (\<lambda>x. 1 < x) (snd (unique_roots f_specs MIN_FREQ_STEP))"

definition sort_dict_freqs :: "(real \<Rightarrow> string) \<Rightarrow> freq_specs \<Rightarrow> error option \<times> freq_specs" where
  "sort_dict_freqs FMT s =
     (case read_visible s of
        Inl e \<Rightarrow> (Some e, s)
      | Inr vs \<Rightarrow>
          (let f_specs = (if freq_specs_sort (fil0 s) then sort vs else vs);
               s1 = s\<lparr>fil0 := (fil0 s)\<lparr>nums := write_specs (nums (fil0 s)) (visible_names s) f_specs\<rparr>\<rparr>
           in if ident f_specs \<noteq> []
              then (case lookup (fil0 s1) ''f_S'' of
                      Inl e \<Rightarrow> (Some e, s1)
                    | Inr fs \<Rightarrow>
                        load_dict FMT (s1\<lparr>logged := logged s1 @ [Must_differ (MIN_FREQ_STEP * fs)]\<rparr>))
              else load_dict FMT s1))"

subsection \<open>Storing an edited entry\<close>

text \<open>
  Lines 160 and 161:
  \<^verbatim>\<open>f_value = safe_eval(event_source.text(), self.data_prev, sign='pos') / fb.fil[0]['f_S']\<close>.
  \<^verbatim>\<open>safe_eval\<close> is not among the sources, so it is a parameter of \<open>entry_value\<close> and of
  the methods that call it: any function that takes the text and the previous text
  and returns a number or raises. What the methods do is stated for every such
  function.
\<close>

definition entry_value ::
  "(qtext \<Rightarrow> qtext \<Rightarrow> error + real) \<Rightarrow> fil \<Rightarrow> qtext \<Rightarrow> qtext option \<Rightarrow> error + real" where
  "entry_value safe_eval fl txt prev =
     (case prev of
        None \<Rightarrow> Inl AttributeError
      | Some alt \<Rightarrow>
          (case safe_eval txt alt of
             Inl e \<Rightarrow> Inl e
           | Inr x \<Rightarrow>
               (case lookup fl ''f_S'' of
                  Inl e \<Rightarrow> Inl e
                | Inr fs \<Rightarrow> if fs = 0 then Inl Division_by_zero else Inr (x / fs))))"

text \<open>
  Replacing the line edit at index \<open>i\<close> by its updated display.
\<close>

definition refresh :: "(real \<Rightarrow> string) \<Rightarrow> nat \<Rightarrow> freq_specs \<Rightarrow> error option \<times> freq_specs" where
  "refresh FMT i s =
     (case update_f_display FMT (fil0 s) (qlineedit s ! i) of
        Inl e \<Rightarrow> (Some e, s)
      | Inr (w, msgs) \<Rightarrow>
          (None, s\<lparr>qlineedit := (qlineedit s)[i := w], logged := logged s @ msgs\<rparr>))"

text \<open>
  \<^verbatim>\<open>_store_entry(event_source)\<close>, for the line edit at index \<open>i\<close> of \<^verbatim>\<open>self.qlineedit\<close>.
\<close>

definition store_entry ::
  "(qtext \<Rightarrow> qtext \<Rightarrow> error + real) \<Rightarrow> (real \<Rightarrow> string) \<Rightarrow> nat \<Rightarrow> freq_specs
     \<Rightarrow> error option \<times> freq_specs" where
  "store_entry safe_eval FMT i s =
     (if spec_edited s
      then (let source = qlineedit s ! i; f_label = objectName source in
            case entry_value safe_eval (fil0 s) (wtext source) (data_prev s) of
              Inl e \<Rightarrow> (Some e, s)
            | Inr f_value \<Rightarrow>
                (case sort_dict_freqs FMT
                        (s\<lparr>fil0 := (fil0 s)\<lparr>nums := (nums (fil0 s))(f_label \<mapsto> f_value)\<rparr>\<rparr>) of
                   (Some e, s') \<Rightarrow> (Some e, s')
                 | (None, s') \<Rightarrow>
                     (None, s'\<lparr>emitted := emitted s' @ [Specs_changed_f_specs],
                               spec_edited := False\<rparr>)))
      else refresh FMT i s)"

subsection \<open>Events\<close>

datatype key = Key_Return | Key_Enter | Key_Escape | Key_Other

datatype event = FocusIn | KeyPress key | FocusOut | Other_event

text \<open>
  \<^verbatim>\<open>eventFilter(source, event)\<close>. The source is the line edit at index \<open>i\<close>; an index
  beyond the list stands for an object that is not a \<^verbatim>\<open>QLineEdit\<close>.
\<close>

definition eventFilter ::
  "(qtext \<Rightarrow> qtext \<Rightarrow> error + real) \<Rightarrow> (real \<Rightarrow> string) \<Rightarrow> nat \<Rightarrow> event \<Rightarrow> freq_specs
     \<Rightarrow> error option \<times> freq_specs" where
  "eventFilter safe_eval FMT i ev s =
     (if i < length (qlineedit s)
      then (case ev of
              FocusIn \<Rightarrow>
                refresh FMT i (s\<lparr>spec_edited := False, data_prev := Some (wtext (qlineedit s ! i))\<rparr>)
            | KeyPress k \<Rightarrow>
                (if k = Key_Return \<or> k = Key_Enter
                 then store_entry safe_eval FMT i (s\<lparr>spec_edited := True\<rparr>)
                 else if k = Key_Escape
                 then refresh FMT i (s\<lparr>spec_edited := False\<rparr>)
                 else (None, s\<lparr>spec_edited := True\<rparr>))
            | FocusOut \<Rightarrow> store_entry safe_eval FMT i s
            | Other_event \<Rightarrow> (None, s))
      else (None, s))"

subsection \<open>A changed sampling frequency\<close>

text \<open>
  Line 228:
  \<^verbatim>\<open>f_value = fb.fil[0][f_label] * fb.fil[0]['f_S_prev'] / fb.fil[0]['f_S']\<close>.
\<close>

definition rescaled_value :: "(string \<rightharpoonup> real) \<Rightarrow> string \<Rightarrow> error + real" where
  "rescaled_value m f_label =
     (case m f_label of
        None \<Rightarrow> Inl (KeyError f_label)
      | Some v \<Rightarrow>
          (case m ''f_S_prev'' of
             None \<Rightarrow> Inl (KeyError ''f_S_prev'')
           | Some fp \<Rightarrow>
               (case m ''f_S'' of
                  None \<Rightarrow> Inl (KeyError ''f_S'')
                | Some fs \<Rightarrow> if fs = 0 then Inl Division_by_zero else Inr (v * fp / fs))))"

text \<open>
  The loop of \<^verbatim>\<open>recalc_freqs\<close> over \<^verbatim>\<open>range(len(self.qlineedit))\<close>, given the labels of
  the line edits: every value is written to the dictionary before the next one is read.
\<close>

fun rescale :: "(string \<rightharpoonup> real) \<Rightarrow> string list \<Rightarrow> error option \<times> (string \<rightharpoonup> real)" where
  "rescale m [] = (None, m)"
| "rescale m (l # ls) =
     (case rescaled_value m l of
        Inl e \<Rightarrow> (Some e, m)
      | Inr v \<Rightarrow> rescale (m(l \<mapsto> v)) ls)"

definition all_labels :: "freq_specs \<Rightarrow> string list" where
  "all_labels s = map (\<lambda>w. f_label_of (objectName w)) (qlineedit s)"

definition recalc_freqs :: "(real \<Rightarrow> string) \<Rightarrow> freq_specs \<Rightarrow> error option \<times> freq_specs" where
  "recalc_freqs FMT s =
     (if freq_locked (fil0 s)
      then (case rescale (nums (fil0 s)) (all_labels s) of
              (Some e, m) \<Rightarrow> (Some e, s\<lparr>fil0 := (fil0 s)\<lparr>nums := m\<rparr>\<rparr>)
            | (None, m) \<Rightarrow>
                load_dict FMT (s\<lparr>fil0 := (fil0 s)\<lparr>nums := m\<rparr>,
                                 emitted := emitted s @ [Specs_changed_f_specs]\<rparr>))
      else load_dict FMT s)"



subsection \<open>A changed set of labels\<close>

text \<open>
  \<^verbatim>\<open>_show_entries(num_new_labels)\<close>: hide, show or create line edits. The labels and
  the line edits are created together, so \<^verbatim>\<open>len(self.qlabels)\<close> is the number of line
  edits. A new line edit has the object name \<^verbatim>\<open>"dummy"\<close> and an empty text.
\<close>

definition set_visible :: "bool \<Rightarrow> nat \<Rightarrow> nat \<Rightarrow> line_edit list \<Rightarrow> line_edit list" where
  "set_visible b lo hi ws =
     map (\<lambda>(i, w). if lo \<le> i \<and> i < hi then w\<lparr>visible := b\<rparr> else w) (zip [0..<length ws] ws)"

definition dummy_edit :: line_edit where
  "dummy_edit = \<lparr>objectName = ''dummy'', wtext = Str '''', wstate = '''', hasFocus = False,
     visible = True\<rparr>"

definition show_entries :: "nat \<Rightarrow> freq_specs \<Rightarrow> freq_specs" where
  "show_entries num_new_labels s =
     (let num_tot_labels = length (qlineedit s) in
      if num_new_labels < n_cur_labels s
      then s\<lparr>qlineedit := set_visible False num_new_labels num_tot_labels (qlineedit s)\<rparr>
      else if num_new_labels \<le> num_tot_labels
      then s\<lparr>qlineedit := set_visible True (n_cur_labels s) num_new_labels (qlineedit s)\<rparr>
      else s\<lparr>qlineedit := qlineedit s @ replicate (num_new_labels - num_tot_labels) dummy_edit\<rparr>)"

text \<open>
  The loop of \<^verbatim>\<open>update_UI\<close> over the new labels, from index \<open>i\<close> on: the text, the name
  and the style of line edit \<open>i\<close> are set. \<^verbatim>\<open>new_labels[i][0]\<close> raises \<^verbatim>\<open>IndexError\<close> for
  an empty label, \<^verbatim>\<open>self.qlabels[i]\<close> for a missing widget.
\<close>

fun set_entries ::
  "string \<Rightarrow> fil \<Rightarrow> nat \<Rightarrow> string list \<Rightarrow> line_edit list \<Rightarrow> error option \<times> line_edit list" where
  "set_entries st fl i [] ws = (None, ws)"
| "set_entries st fl i (l # ls) ws =
     (if length ws \<le> i \<or> l = [] then (Some IndexError, ws)
      else (case lookup fl l of
              Inl e \<Rightarrow> (Some e, ws)
            | Inr v \<Rightarrow>
                set_entries st fl (Suc i) ls
                  (ws[i := (ws ! i)\<lparr>wtext := Repr v, objectName := l, wstate := st\<rparr>])))"

text \<open>\<^verbatim>\<open>update_UI(new_labels)\<close>: the first element is the state, the others the labels.\<close>

definition update_UI ::
  "(real \<Rightarrow> string) \<Rightarrow> string list \<Rightarrow> freq_specs \<Rightarrow> error option \<times> freq_specs" where
  "update_UI FMT new_labels s =
     (case new_labels of
        [] \<Rightarrow> (Some IndexError, s)
      | st # labels \<Rightarrow>
          (let s1 = show_entries (length labels) s in
           case set_entries st (fil0 s1) 0 labels (qlineedit s1) of
             (Some e, ws) \<Rightarrow> (Some e, s1\<lparr>qlineedit := ws\<rparr>)
           | (None, ws) \<Rightarrow>
               sort_dict_freqs FMT (s1\<lparr>qlineedit := ws, n_cur_labels := length labels\<rparr>)))"

subsection \<open>Example states\<close>

text \<open>
  A stand-in for \<^verbatim>\<open>params['FMT'].format\<close> in the examples, none of which depends on
  how a value is formatted.
\<close>

definition any_FMT :: "real \<Rightarrow> string" where
  "any_FMT x = []"

definition fil_of :: "(string \<times> real) list \<Rightarrow> bool \<Rightarrow> bool \<Rightarrow> string \<Rightarrow> fil" where
  "fil_of kvs locked srt unit =
     \<lparr>nums = map_of kvs, freq_locked = locked, freq_specs_sort = srt,
      plt_fUnit = unit, freq_specs_unit = unit\<rparr>"

definition edit_of :: "string \<Rightarrow> qtext \<Rightarrow> bool \<Rightarrow> line_edit" where
  "edit_of name txt focus =
     \<lparr>objectName = name, wtext = txt, wstate = ''normal'', hasFocus = focus, visible = True\<rparr>"

text \<open>A widget showing the first \<open>n\<close> of the given line edits.\<close>

definition widget_of :: "fil \<Rightarrow> line_edit list \<Rightarrow> nat \<Rightarrow> freq_specs" where
  "widget_of fl ws n = (init fl)\<lparr>qlineedit := ws, n_cur_labels := n\<rparr>"


text \<open>
  A fresh widget after \<^verbatim>\<open>update_UI(['normal', 'A', 'B', 'C'])\<close> and then
  \<^verbatim>\<open>update_UI(['normal', 'C'])\<close>: the third line edit is hidden and keeps its name.
\<close>

definition fil_abc :: fil where
  "fil_abc = fil_of [(''f_S'', 2000), (''f_S_prev'', 1000), (''A'', 1 / 10), (''B'', 1 / 5),
                     (''C'', 1 / 4)] True False ''Hz''"

definition after_two_updates :: freq_specs where
  "after_two_updates =
     snd (update_UI any_FMT [''normal'', ''C'']
            (snd (update_UI any_FMT [''normal'', ''A'', ''B'', ''C''] (init fil_abc))))"

text \<open>One visible line edit \<^verbatim>\<open>F_PB\<close> with the stored value 0.25.\<close>

definition single_example :: "real \<Rightarrow> real \<Rightarrow> bool \<Rightarrow> freq_specs" where
  "single_example fs fp locked =
     widget_of (fil_of [(''f_S'', fs), (''f_S_prev'', fp), (''F_PB'', 1 / 4)] locked False ''Hz'')
       [edit_of ''F_PB'' (Str ''250'') False] 1"

text \<open>
  The scenario of the spec: the active set \<^verbatim>\<open>["F_SB", "F_PB"]\<close> with the values 0.2 and
  0.3, sorting enabled, \<^verbatim>\<open>f_S = 1\<close>; the line edit of \<^verbatim>\<open>F_PB\<close> has the focus and the
  text \<open>txt\<close>.
\<close>

definition scenario :: "real \<Rightarrow> qtext \<Rightarrow> freq_specs" where
  "scenario v_PB txt =
     widget_of (fil_of [(''f_S'', 1), (''f_S_prev'', 1), (''F_SB'', 1 / 5), (''F_PB'', v_PB)]
                  False True ''f_S'')
       [edit_of ''F_SB'' (Str ''0.2'') False, edit_of ''F_PB'' txt True] 2"

text \<open>
  One line edit \<^verbatim>\<open>F_PB\<close> with the focus, as after a \<^verbatim>\<open>FocusIn\<close> event: the stored value
  \<open>v\<close>, the sampling frequency \<open>fs\<close> and the unit \<open>unit\<close>, sorting switched off.
\<close>

definition focused_example :: "real \<Rightarrow> real \<Rightarrow> string \<Rightarrow> qtext \<Rightarrow> freq_specs" where
  "focused_example v fs unit txt =
     widget_of (fil_of [(''f_S'', fs), (''f_S_prev'', fs), (''F_PB'', v)] False False unit)
       [edit_of ''F_PB'' txt True] 1"

text \<open>
  A committed edit: \<^verbatim>\<open>F_PB\<close> holds 0.123456 (\<^verbatim>\<open>f_S = 1\<close>), the previous text of its line
  edit is \<^verbatim>\<open>0.123\<close> and its text is now \<open>txt\<close>. In \<open>abc_edit\<close> the user has typed \<^verbatim>\<open>abc\<close>,
  which cannot be evaluated.
\<close>

definition typed_edit :: "qtext \<Rightarrow> freq_specs" where
  "typed_edit txt =
     (focused_example (123456 / 1000000) 1 ''f_S'' txt)
       \<lparr>spec_edited := True, data_prev := Some (Str ''0.123'')\<rparr>"

definition abc_edit :: freq_specs where
  "abc_edit = typed_edit (Str ''abc'')"

section \<open>Properties\<close>

subsection \<open>Refreshing the display\<close>

lemma update_f_display_keeps:
  "update_f_display FMT fl w = Inr (w', msgs) \<Longrightarrow>
     objectName w' = objectName w \<and> hasFocus w' = hasFocus w \<and> visible w' = visible w"
  by (auto simp: update_f_display_def Let_def split: sum.splits if_splits)

lemma load_list_keeps:
  "load_list FMT fl ws = (e, ws', msgs) \<Longrightarrow>
     map objectName ws' = map objectName ws \<and> map hasFocus ws' = map hasFocus ws
     \<and> map visible ws' = map visible ws"
proof (induction ws arbitrary: e ws' msgs)
  case Nil
  then show ?case by simp
next
  case (Cons w ws)
  show ?case
  proof (cases "update_f_display FMT fl w")
    case (Inl err)
    with Cons.prems show ?thesis by simp
  next
    case (Inr p)
    obtain w1 m1 where p: "p = (w1, m1)" by (cases p)
    obtain e2 ws2 m2 where r: "load_list FMT fl ws = (e2, ws2, m2)"
      by (cases "load_list FMT fl ws") auto
    from Cons.prems Inr p r have "ws' = w1 # ws2" by simp
    moreover note Cons.IH [OF r] update_f_display_keeps [OF Inr [unfolded p]]
    ultimately show ?thesis by simp
  qed
qed

lemma load_dict_frame:
  "fil0 (snd (load_dict FMT s)) = fil0 s \<and> n_cur_labels (snd (load_dict FMT s)) = n_cur_labels s
   \<and> spec_edited (snd (load_dict FMT s)) = spec_edited s
   \<and> data_prev (snd (load_dict FMT s)) = data_prev s
   \<and> emitted (snd (load_dict FMT s)) = emitted s"
  by (simp add: load_dict_def split: prod.splits)

lemma load_dict_names:
  "map objectName (qlineedit (snd (load_dict FMT s))) = map objectName (qlineedit s)
   \<and> map hasFocus (qlineedit (snd (load_dict FMT s))) = map hasFocus (qlineedit s)
   \<and> map visible (qlineedit (snd (load_dict FMT s))) = map visible (qlineedit s)"
  using load_list_keeps [of FMT "fil0 s" "qlineedit s"]
  by (auto simp: load_dict_def split: prod.splits)

text \<open>
  C7. While \<^verbatim>\<open>freq_locked\<close> is false, a changed sampling frequency leaves the filter
  dictionary, and with it every stored normalised value, as it is. Only the texts and
  the style states of the line edits (and the log) are refreshed: the names, the focus,
  the visibility, the number of visible entries, the edit flag, the previous text and
  the emitted signals stay.
\<close>

theorem recalc_freqs_unlocked:
  assumes "\<not> freq_locked (fil0 s)"
  shows "fil0 (snd (recalc_freqs FMT s)) = fil0 s
       \<and> n_cur_labels (snd (recalc_freqs FMT s)) = n_cur_labels s
       \<and> spec_edited (snd (recalc_freqs FMT s)) = spec_edited s
       \<and> data_prev (snd (recalc_freqs FMT s)) = data_prev s
       \<and> emitted (snd (recalc_freqs FMT s)) = emitted s
       \<and> map objectName (qlineedit (snd (recalc_freqs FMT s))) = map objectName (qlineedit s)
       \<and> map hasFocus (qlineedit (snd (recalc_freqs FMT s))) = map hasFocus (qlineedit s)
       \<and> map visible (qlineedit (snd (recalc_freqs FMT s))) = map visible (qlineedit s)"
proof -
  from assms have "recalc_freqs FMT s = load_dict FMT s"
    by (simp add: recalc_freqs_def)
  then show ?thesis
    using load_dict_frame [of FMT s] load_dict_names [of FMT s] by simp
qed

theorem recalc_freqs_unlocked_witness:
  "\<not> freq_locked (fil0 (widget_of (fil_of [(''f_S'', 2000), (''f_S_prev'', 1000), (''F_PB'', 1 / 4)]
        False False ''Hz'') [edit_of ''F_PB'' (Str ''250'') False] 1))
   \<and> nums (fil0 (snd (recalc_freqs any_FMT
        (widget_of (fil_of [(''f_S'', 2000), (''f_S_prev'', 1000), (''F_PB'', 1 / 4)]
           False False ''Hz'') [edit_of ''F_PB'' (Str ''250'') False] 1)))) ''F_PB'' = Some (1 / 4)
   \<and> map wtext (qlineedit (snd (recalc_freqs any_FMT
        (widget_of (fil_of [(''f_S'', 2000), (''f_S_prev'', 1000), (''F_PB'', 1 / 4)]
           False False ''Hz'') [edit_of ''F_PB'' (Str ''250'') False] 1)))) = [Str (any_FMT 500)]"
  using recalc_freqs_unlocked [of "widget_of (fil_of [(''f_S'', 2000), (''f_S_prev'', 1000),
      (''F_PB'', 1 / 4)] False False ''Hz'') [edit_of ''F_PB'' (Str ''250'') False] 1" any_FMT]
  by (simp add: widget_of_def fil_of_def edit_of_def init_def recalc_freqs_def load_dict_def
      update_f_display_def lookup_def f_label_of_def)

subsection \<open>The loop of the rescaling\<close>

lemma rescale_other: "k \<notin> set ls \<Longrightarrow> snd (rescale m ls) k = m k"
  by (induction ls arbitrary: m) (auto split: sum.splits)





lemma recalc_freqs_nums:
  "freq_locked (fil0 s) \<Longrightarrow>
     nums (fil0 (snd (recalc_freqs FMT s))) = snd (rescale (nums (fil0 s)) (all_labels s))"
  using load_dict_frame [of FMT "s\<lparr>fil0 := (fil0 s)\<lparr>nums := snd (rescale (nums (fil0 s)) (all_labels s))\<rparr>,
      emitted := emitted s @ [Specs_changed_f_specs]\<rparr>"]
  by (auto simp: recalc_freqs_def split: prod.splits option.splits)

lemma write_specs_other: "k \<notin> set ks \<Longrightarrow> write_specs m ks vs k = m k"
  by (induction m ks vs rule: write_specs.induct) auto

lemma load_dict_fil0: "fil0 (snd (load_dict FMT s)) = fil0 s"
  using load_dict_frame by blast

lemma sort_dict_freqs_nums:
  "nums (fil0 (snd (sort_dict_freqs FMT s))) =
     (case read_visible s of
        Inl e \<Rightarrow> nums (fil0 s)
      | Inr vs \<Rightarrow> write_specs (nums (fil0 s)) (visible_names s)
                   (if freq_specs_sort (fil0 s) then sort vs else vs))"
  by (simp add: sort_dict_freqs_def Let_def load_dict_fil0 split: sum.splits)

lemmas ex_defs = widget_of_def fil_of_def edit_of_def init_def any_FMT_def
lemmas run_defs = recalc_freqs_def load_dict_def update_f_display_def lookup_def f_label_of_def
  all_labels_def rescaled_value_def visible_names_def Let_def

subsection \<open>Rescaling when the sampling frequency has changed\<close>



text \<open>
  C1. The claim that a locked rescale replaces the value of every active parameter by
  \<^verbatim>\<open>old * f_S_prev / f_S\<close> fails where a hidden line edit still carries the name of
  an active one. After \<^verbatim>\<open>update_UI(['normal', 'A', 'B', 'C'])\<close> and
  \<^verbatim>\<open>update_UI(['normal', 'C'])\<close> the line edits are named C, B, C and only the first is
  active. A change of the sampling frequency from 1000 to 2000 then rescales the active
  parameter C twice: 0.25 becomes 0.0625 and not 0.125, so its absolute frequency is
  not preserved.
\<close>

theorem recalc_freqs_rescales_twice:
  "visible_names after_two_updates = [''C'']
   \<and> map objectName (qlineedit after_two_updates) = [''C'', ''B'', ''C'']
   \<and> freq_locked (fil0 after_two_updates)
   \<and> nums (fil0 after_two_updates) ''f_S_prev'' = Some 1000
   \<and> nums (fil0 after_two_updates) ''f_S'' = Some 2000
   \<and> nums (fil0 after_two_updates) ''C'' = Some (1 / 4)
   \<and> fst (recalc_freqs any_FMT after_two_updates) = None
   \<and> nums (fil0 (snd (recalc_freqs any_FMT after_two_updates))) ''C'' = Some (1 / 16)"
  by (simp add: after_two_updates_def fil_abc_def ex_defs run_defs update_UI_def show_entries_def
      set_visible_def dummy_edit_def sort_dict_freqs_def read_visible_def ident_def
      unique_roots_def MIN_FREQ_STEP_def Let_def)

text \<open>
  C9, as the claim states it, fails: after a completed rescale from 1000 to 2000 the
  entry \<^verbatim>\<open>f_S_prev\<close> is still 1000 while \<^verbatim>\<open>f_S\<close> is 2000.
\<close>

theorem recalc_freqs_f_S_prev_counterexample:
  "freq_locked (fil0 (single_example 2000 1000 True))
   \<and> fst (recalc_freqs any_FMT (single_example 2000 1000 True)) = None
   \<and> nums (fil0 (snd (recalc_freqs any_FMT (single_example 2000 1000 True)))) ''F_PB'' = Some (1 / 8)
   \<and> nums (fil0 (snd (recalc_freqs any_FMT (single_example 2000 1000 True)))) ''f_S'' = Some 2000
   \<and> nums (fil0 (snd (recalc_freqs any_FMT (single_example 2000 1000 True)))) ''f_S_prev'' = Some 1000"
  by (simp add: single_example_def ex_defs run_defs)

text \<open>
  C9, amended. \<^verbatim>\<open>recalc_freqs\<close> never writes \<^verbatim>\<open>f_S_prev\<close> or \<^verbatim>\<open>f_S\<close>: unless a line
  edit is named so, both entries have after the call the values they had before it,
  whether or not the frequencies are locked and whether or not the call raised.
  Setting \<^verbatim>\<open>f_S_prev\<close> is left to the code that changes \<^verbatim>\<open>f_S\<close>.
\<close>

theorem recalc_freqs_keeps_f_S_prev:
  assumes "''f_S_prev'' \<notin> set (all_labels s)" and "''f_S'' \<notin> set (all_labels s)"
  shows "nums (fil0 (snd (recalc_freqs FMT s))) ''f_S_prev'' = nums (fil0 s) ''f_S_prev''
       \<and> nums (fil0 (snd (recalc_freqs FMT s))) ''f_S'' = nums (fil0 s) ''f_S''"
proof (cases "freq_locked (fil0 s)")
  case True
  then show ?thesis
    using assms by (simp add: recalc_freqs_nums rescale_other)
next
  case False
  then have "recalc_freqs FMT s = load_dict FMT s"
    by (simp add: recalc_freqs_def)
  then show ?thesis
    by (simp add: load_dict_fil0)
qed

theorem recalc_freqs_keeps_f_S_prev_witness:
  "''f_S_prev'' \<notin> set (all_labels (single_example 2000 1000 True))
   \<and> ''f_S'' \<notin> set (all_labels (single_example 2000 1000 True))
   \<and> nums (fil0 (snd (recalc_freqs any_FMT (single_example 2000 1000 True)))) ''f_S_prev'' = Some 1000
   \<and> nums (fil0 (snd (recalc_freqs any_FMT (single_example 2000 1000 True)))) ''f_S'' = Some 2000"
  using recalc_freqs_keeps_f_S_prev [of "single_example 2000 1000 True" any_FMT]
  by (simp add: single_example_def ex_defs all_labels_def f_label_of_def)





subsection \<open>Sorting\<close>

lemma read_specs_present:
  "list_all (\<lambda>k. nums fl k \<noteq> None) ks \<Longrightarrow>
     read_specs fl ks = Inr (map (\<lambda>k. the (nums fl k)) ks)"
  by (induction ks) (auto simp: lookup_def)

lemma write_specs_same:
  "list_all (\<lambda>k. m k \<noteq> None) ks \<Longrightarrow> write_specs m ks (map (\<lambda>k. the (m k)) ks) = m"
proof (induction ks)
  case Nil
  then show ?case by simp
next
  case (Cons k ks)
  then obtain v where "m k = Some v" by auto
  then have "m(k \<mapsto> the (m k)) = m" by (simp add: map_upd_triv)
  with Cons show ?case by simp
qed

lemma write_specs_nth:
  "distinct ks \<Longrightarrow> length ks = length vs \<Longrightarrow> i < length ks \<Longrightarrow>
     write_specs m ks vs (ks ! i) = Some (vs ! i)"
proof (induction m ks vs arbitrary: i rule: write_specs.induct)
  case (1 m k ks v vs)
  show ?case
  proof (cases i)
    case 0
    with "1.prems" show ?thesis by (simp add: write_specs_other)
  next
    case (Suc j)
    from "1.prems" Suc have "distinct ks" "length ks = length vs" "j < length ks"
      by simp_all
    then have "write_specs (m(k \<mapsto> v)) ks vs (ks ! j) = Some (vs ! j)"
      by (rule "1.IH")
    with Suc show ?thesis by simp
  qed
qed simp_all

lemma sort_dict_freqs_names:
  "visible_names (snd (sort_dict_freqs FMT s)) = visible_names s"
proof -
  have a: "\<And>t. visible_names (snd (load_dict FMT t)) = visible_names t"
    using load_dict_names load_dict_frame by (simp add: visible_names_def take_map [symmetric])
  show ?thesis
    by (auto simp: sort_dict_freqs_def Let_def a split: sum.splits) (simp_all add: visible_names_def)
qed

lemmas sort_defs = sort_dict_freqs_def read_visible_def ident_def unique_roots_def MIN_FREQ_STEP_def

text \<open>
  C3. For line edits with distinct names whose entries exist, \<^verbatim>\<open>sort_dict_freqs\<close> leaves
  the filter dictionary unchanged when \<^verbatim>\<open>freq_specs_sort\<close> is false. When it is true, the
  entry named by the line edit in slot \<open>i\<close> is afterwards the \<open>i\<close>-th smallest of the
  values that the visible entries had before: the values move, the names stay bound to
  their slots.
\<close>

theorem sort_dict_freqs_slots:
  assumes "n_cur_labels s \<le> length (qlineedit s)"
    and "distinct (visible_names s)"
    and "list_all (\<lambda>k. nums (fil0 s) k \<noteq> None) (visible_names s)"
  shows "(\<not> freq_specs_sort (fil0 s) \<longrightarrow> fil0 (snd (sort_dict_freqs FMT s)) = fil0 s)
    \<and> (freq_specs_sort (fil0 s) \<longrightarrow>
         (\<forall>i < n_cur_labels s.
            nums (fil0 (snd (sort_dict_freqs FMT s))) (visible_names s ! i) =
              Some (sort (map (\<lambda>k. the (nums (fil0 s) k)) (visible_names s)) ! i)))
    \<and> visible_names (snd (sort_dict_freqs FMT s)) = visible_names s"
proof -
  let ?vs = "map (\<lambda>k. the (nums (fil0 s) k)) (visible_names s)"
  have len: "length (visible_names s) = n_cur_labels s"
    using assms(1) by (simp add: visible_names_def)
  have rv: "read_visible s = Inr ?vs"
    using assms(1) read_specs_present [OF assms(3)] by (simp add: read_visible_def)
  have nums: "nums (fil0 (snd (sort_dict_freqs FMT s))) =
      write_specs (nums (fil0 s)) (visible_names s) (if freq_specs_sort (fil0 s) then sort ?vs else ?vs)"
    by (simp add: sort_dict_freqs_nums rv)
  have rest: "fil0 (snd (sort_dict_freqs FMT s)) =
      (fil0 s)\<lparr>nums := nums (fil0 (snd (sort_dict_freqs FMT s)))\<rparr>"
    by (simp add: sort_dict_freqs_def Let_def load_dict_fil0 split: sum.splits)
  have unsorted: "fil0 (snd (sort_dict_freqs FMT s)) = fil0 s" if "\<not> freq_specs_sort (fil0 s)"
    using that rest nums write_specs_same [OF assms(3)] by simp
  have sorted: "nums (fil0 (snd (sort_dict_freqs FMT s))) (visible_names s ! i) = Some (sort ?vs ! i)"
    if "freq_specs_sort (fil0 s)" "i < n_cur_labels s" for i
    using that nums len write_specs_nth [OF assms(2), of "sort ?vs" i "nums (fil0 s)"] by simp
  show ?thesis
    using unsorted sorted sort_dict_freqs_names by blast
qed

theorem sort_dict_freqs_slots_witness:
  "n_cur_labels (scenario (1 / 10) (Str ''0.1'')) \<le> length (qlineedit (scenario (1 / 10) (Str ''0.1'')))
   \<and> distinct (visible_names (scenario (1 / 10) (Str ''0.1'')))
   \<and> list_all (\<lambda>k. nums (fil0 (scenario (1 / 10) (Str ''0.1''))) k \<noteq> None)
        (visible_names (scenario (1 / 10) (Str ''0.1'')))
   \<and> freq_specs_sort (fil0 (scenario (1 / 10) (Str ''0.1'')))
   \<and> visible_names (scenario (1 / 10) (Str ''0.1'')) = [''F_SB'', ''F_PB'']
   \<and> nums (fil0 (scenario (1 / 10) (Str ''0.1''))) ''F_SB'' = Some (1 / 5)
   \<and> nums (fil0 (scenario (1 / 10) (Str ''0.1''))) ''F_PB'' = Some (1 / 10)
   \<and> nums (fil0 (snd (sort_dict_freqs any_FMT (scenario (1 / 10) (Str ''0.1''))))) ''F_SB'' = Some (1 / 10)
   \<and> nums (fil0 (snd (sort_dict_freqs any_FMT (scenario (1 / 10) (Str ''0.1''))))) ''F_PB'' = Some (1 / 5)"
proof -
  let ?s = "scenario (1 / 10) (Str ''0.1'')"
  have h: "n_cur_labels ?s \<le> length (qlineedit ?s)" "distinct (visible_names ?s)"
    "list_all (\<lambda>k. nums (fil0 ?s) k \<noteq> None) (visible_names ?s)"
    by (simp_all add: scenario_def ex_defs visible_names_def del: not_None_eq)
  have g: "freq_specs_sort (fil0 ?s)" "visible_names ?s = [''F_SB'', ''F_PB'']"
    "nums (fil0 ?s) ''F_SB'' = Some (1 / 5)" "nums (fil0 ?s) ''F_PB'' = Some (1 / 10)"
    "n_cur_labels ?s = 2"
    by (simp_all add: scenario_def ex_defs visible_names_def)
  note th = sort_dict_freqs_slots [OF h, of any_FMT]
  from th g(1) have a: "\<forall>i < n_cur_labels ?s.
       nums (fil0 (snd (sort_dict_freqs any_FMT ?s))) (visible_names ?s ! i) =
         Some (sort (map (\<lambda>k. the (nums (fil0 ?s) k)) (visible_names ?s)) ! i)"
    by blast
  have "nums (fil0 (snd (sort_dict_freqs any_FMT ?s))) (visible_names ?s ! 0) =
         Some (sort (map (\<lambda>k. the (nums (fil0 ?s) k)) (visible_names ?s)) ! 0)"
    using a g(5) by simp
  then have b: "nums (fil0 (snd (sort_dict_freqs any_FMT ?s))) ''F_SB'' = Some (1 / 10)"
    by (simp add: g)
  have "nums (fil0 (snd (sort_dict_freqs any_FMT ?s))) (visible_names ?s ! 1) =
         Some (sort (map (\<lambda>k. the (nums (fil0 ?s) k)) (visible_names ?s)) ! 1)"
    using a g(5) by simp
  then have c: "nums (fil0 (snd (sort_dict_freqs any_FMT ?s))) ''F_PB'' = Some (1 / 5)"
    by (simp add: g)
  show ?thesis using h g b c by simp
qed

text \<open>
  The scenario as a whole: \<^verbatim>\<open>F_PB\<close> holds 0.3, the user replaces its text by \<^verbatim>\<open>0.1\<close> and
  presses Return. The values 0.1 and 0.2 are assigned to the slots in this order and
  both line edits are marked valid.
\<close>

lemma commit_edit_scenario:
  "fst (eventFilter safe_eval_pos any_FMT 1 (KeyPress Key_Return)
          ((scenario (3 / 10) (Str ''0.1''))\<lparr>data_prev := Some (Repr (3 / 10))\<rparr>)) = None
   \<and> nums (fil0 (snd (eventFilter safe_eval_pos any_FMT 1 (KeyPress Key_Return)
          ((scenario (3 / 10) (Str ''0.1''))\<lparr>data_prev := Some (Repr (3 / 10))\<rparr>)))) ''F_SB''
        = Some (1 / 10)
   \<and> nums (fil0 (snd (eventFilter safe_eval_pos any_FMT 1 (KeyPress Key_Return)
          ((scenario (3 / 10) (Str ''0.1''))\<lparr>data_prev := Some (Repr (3 / 10))\<rparr>)))) ''F_PB''
        = Some (1 / 5)
   \<and> map wstate (qlineedit (snd (eventFilter safe_eval_pos any_FMT 1 (KeyPress Key_Return)
          ((scenario (3 / 10) (Str ''0.1''))\<lparr>data_prev := Some (Repr (3 / 10))\<rparr>))))
        = [''normal'', ''normal'']
   \<and> map wtext (qlineedit (snd (eventFilter safe_eval_pos any_FMT 1 (KeyPress Key_Return)
          ((scenario (3 / 10) (Str ''0.1''))\<lparr>data_prev := Some (Repr (3 / 10))\<rparr>))))
        = [Str (any_FMT (1 / 10)), Repr (1 / 5)]"
  by (simp add: scenario_def ex_defs run_defs sort_defs eventFilter_def store_entry_def
      entry_value_def safe_eval_pos_def pos_value_def parse_real_def parse_unsigned_def
      digit_of_def)

subsection \<open>Conversion between stored and displayed values\<close>

text \<open>
  C8, as the claim states it, fails: the unit is never consulted. With the unit
  \<^verbatim>\<open>f_Ny\<close>, \<^verbatim>\<open>f_S = 2\<close> and the stored value 0.25 the line edit shows 0.5, not the
  normalised value.
\<close>

theorem display_unit_counterexample:
  "plt_fUnit (fil0 (focused_example (1 / 4) 2 ''f_Ny'' (Str ''0.5''))) = ''f_Ny''
   \<and> freq_specs_unit (fil0 (focused_example (1 / 4) 2 ''f_Ny'' (Str ''0.5''))) = ''f_Ny''
   \<and> nums (fil0 (focused_example (1 / 4) 2 ''f_Ny'' (Str ''0.5''))) ''F_PB'' = Some (1 / 4)
   \<and> map wtext (qlineedit (snd (load_dict any_FMT (focused_example (1 / 4) 2 ''f_Ny'' (Str ''0.5'')))))
        = [Repr (1 / 2)]
   \<and> Repr (1 / 2) \<noteq> Repr (1 / 4)"
  by (simp add: focused_example_def ex_defs run_defs)

text \<open>
  C8, amended. For every unit the displayed value is the stored value times \<^verbatim>\<open>f_S\<close>,
  shown with full precision when the line edit has the focus and formatted otherwise,
  and the value that \<^verbatim>\<open>safe_eval\<close> returns for the text entered is divided by \<^verbatim>\<open>f_S\<close>:
  neither \<^verbatim>\<open>plt_fUnit\<close> nor \<^verbatim>\<open>freq_specs_unit\<close> enters the conversion.
\<close>

theorem display_is_value_times_f_S:
  assumes "nums fl (f_label_of (objectName w)) = Some v" and "nums fl ''f_S'' = Some fs"
  shows "(\<exists>w' msgs. update_f_display FMT (fl\<lparr>plt_fUnit := unit, freq_specs_unit := unit'\<rparr>) w
              = Inr (w', msgs)
            \<and> wtext w' = (if hasFocus w then Repr (v * fs) else Str (FMT (v * fs))))
    \<and> (\<forall>x. safe_eval txt prev = Inr x \<and> fs \<noteq> 0 \<longrightarrow>
          entry_value safe_eval (fl\<lparr>plt_fUnit := unit, freq_specs_unit := unit'\<rparr>) txt (Some prev)
            = Inr (x / fs))"
  using assms
  by (auto simp: update_f_display_def entry_value_def lookup_def Let_def)

theorem display_is_value_times_f_S_witness:
  "nums (fil0 (focused_example (1 / 4) 1000 ''f_S'' (Str ''250''))) (f_label_of ''F_PB'') = Some (1 / 4)
   \<and> nums (fil0 (focused_example (1 / 4) 1000 ''f_S'' (Str ''250''))) ''f_S'' = Some 1000
   \<and> safe_eval_pos (Str ''250'') (Str ''1'') = Inr 250 \<and> (1000::real) \<noteq> 0
   \<and> (\<exists>w' msgs. update_f_display any_FMT (fil0 (focused_example (1 / 4) 1000 ''f_S'' (Str ''250'')))
          (edit_of ''F_PB'' (Str ''250'') True) = Inr (w', msgs) \<and> wtext w' = Repr 250)
   \<and> entry_value safe_eval_pos (fil0 (focused_example (1 / 4) 1000 ''f_S'' (Str ''250'')))
        (Str ''250'') (Some (Str ''1'')) = Inr (1 / 4)"
proof -
  let ?fl = "fil0 (focused_example (1 / 4) 1000 ''f_S'' (Str ''250''))"
  let ?w = "edit_of ''F_PB'' (Str ''250'') True"
  have h: "nums ?fl (f_label_of (objectName ?w)) = Some (1 / 4)" "nums ?fl ''f_S'' = Some 1000"
    by (simp_all add: focused_example_def ex_defs f_label_of_def)
  have p: "safe_eval_pos (Str ''250'') (Str ''1'') = Inr 250"
    by (simp add: safe_eval_pos_def pos_value_def parse_real_def parse_unsigned_def digit_of_def)
  have u: "?fl\<lparr>plt_fUnit := ''f_S'', freq_specs_unit := ''f_S''\<rparr> = ?fl"
    by (simp add: focused_example_def ex_defs)
  note th = display_is_value_times_f_S [OF h, of any_FMT "''f_S''" "''f_S''" safe_eval_pos
      "Str ''250''" "Str ''1''", unfolded u]
  from th p have "entry_value safe_eval_pos ?fl (Str ''250'') (Some (Str ''1'')) = Inr (250 / 1000)"
    by simp
  moreover from th have "\<exists>w' msgs. update_f_display any_FMT ?fl ?w = Inr (w', msgs)
      \<and> wtext w' = Repr 250"
    by (simp add: edit_of_def)
  ultimately show ?thesis using h p by (simp add: edit_of_def)
qed

subsection \<open>An edit that cannot be evaluated\<close>

lemma update_f_display_error: "update_f_display FMT fl w = Inl e \<Longrightarrow> \<exists>k. e = KeyError k"
  by (auto simp: update_f_display_def lookup_def Let_def split: option.splits if_splits)

lemma load_list_error: "fst (load_list FMT fl ws) = Some e \<Longrightarrow> \<exists>k. e = KeyError k"
proof (induction ws)
  case Nil
  then show ?case by simp
next
  case (Cons w ws)
  show ?case
  proof (cases "update_f_display FMT fl w")
    case (Inl e')
    with Cons.prems update_f_display_error [OF Inl] show ?thesis by simp
  next
    case (Inr p)
    with Cons show ?thesis by (cases p, cases "load_list FMT fl ws") auto
  qed
qed

lemma load_dict_error: "fst (load_dict FMT s) = Some e \<Longrightarrow> \<exists>k. e = KeyError k"
  using load_list_error [of FMT "fil0 s" "qlineedit s" e]
  by (cases "load_list FMT (fil0 s) (qlineedit s)") (auto simp: load_dict_def)

lemma read_specs_error: "read_specs fl ks = Inl e \<Longrightarrow> \<exists>k. e = KeyError k"
  by (induction ks) (auto simp: lookup_def split: option.splits sum.splits)

lemma sort_dict_freqs_error:
  "fst (sort_dict_freqs FMT s) = Some e \<Longrightarrow> e = IndexError \<or> (\<exists>k. e = KeyError k)"
  by (auto simp: sort_dict_freqs_def read_visible_def lookup_def Let_def
      split: sum.splits if_splits option.splits
      dest: read_specs_error load_dict_error)

text \<open>
  C5, as the claim states it, fails whatever \<^verbatim>\<open>safe_eval\<close> does with the text \<^verbatim>\<open>abc\<close>.
  If it raises, \<^verbatim>\<open>_store_entry\<close> ends with that exception and the line edit keeps the
  text \<^verbatim>\<open>abc\<close>; if it returns a number, \<^verbatim>\<open>_store_entry\<close> stores it and reports no
  failure. So there is no function under which the commit fails while the previous
  text \<^verbatim>\<open>0.123\<close> is shown again.
\<close>

theorem store_entry_unparsable_counterexample:
  "\<not> (\<exists>safe_eval.
        fst (store_entry safe_eval any_FMT 0 abc_edit) \<noteq> None
        \<and> nums (fil0 (snd (store_entry safe_eval any_FMT 0 abc_edit))) ''F_PB''
            = nums (fil0 abc_edit) ''F_PB''
        \<and> wtext (qlineedit (snd (store_entry safe_eval any_FMT 0 abc_edit)) ! 0) = Str ''0.123'')"
proof
  assume "\<exists>safe_eval.
        fst (store_entry safe_eval any_FMT 0 abc_edit) \<noteq> None
        \<and> nums (fil0 (snd (store_entry safe_eval any_FMT 0 abc_edit))) ''F_PB''
            = nums (fil0 abc_edit) ''F_PB''
        \<and> wtext (qlineedit (snd (store_entry safe_eval any_FMT 0 abc_edit)) ! 0) = Str ''0.123''"
  then obtain se where a: "fst (store_entry se any_FMT 0 abc_edit) \<noteq> None"
    and c: "wtext (qlineedit (snd (store_entry se any_FMT 0 abc_edit)) ! 0) = Str ''0.123''"
    by blast
  show False
  proof (cases "se (Str ''abc'') (Str ''0.123'')")
    case (Inl e)
    then have "store_entry se any_FMT 0 abc_edit = (Some e, abc_edit)"
      by (simp add: store_entry_def entry_value_def abc_edit_def typed_edit_def focused_example_def
          ex_defs)
    with c show False
      by (simp add: abc_edit_def typed_edit_def focused_example_def ex_defs)
  next
    case (Inr x)
    then have "fst (store_entry se any_FMT 0 abc_edit) = None"
      by (simp add: store_entry_def entry_value_def abc_edit_def typed_edit_def
          focused_example_def ex_defs run_defs sort_defs)
    with a show False by simp
  qed
qed

text \<open>
  C5, amended. When \<^verbatim>\<open>safe_eval\<close> reports a failure for the text of an edited line edit,
  committing the edit, by Return, Enter or the loss of the focus, ends with that
  failure and changes nothing: the filter dictionary and so the stored value are
  unchanged, the previous text is still held in \<^verbatim>\<open>data_prev\<close>, and the line edit keeps
  the rejected text, which is not replaced by the previous one. When \<^verbatim>\<open>safe_eval\<close>
  returns a number instead, no parse failure is reported: the number divided by a
  non-zero \<^verbatim>\<open>f_S\<close> is stored under the name of the line edit and the entries are sorted.
\<close>

theorem store_entry_failure:
  assumes "spec_edited s" and "data_prev s = Some prev"
  shows "(\<forall>e. safe_eval (wtext (qlineedit s ! i)) prev = Inl e \<longrightarrow>
            store_entry safe_eval FMT i s = (Some e, s)
            \<and> (i < length (qlineedit s) \<longrightarrow>
                  eventFilter safe_eval FMT i (KeyPress Key_Return) s = (Some e, s)
                  \<and> eventFilter safe_eval FMT i (KeyPress Key_Enter) s = (Some e, s)
                  \<and> eventFilter safe_eval FMT i FocusOut s = (Some e, s)))
    \<and> (\<forall>x fs. safe_eval (wtext (qlineedit s ! i)) prev = Inr x
                \<and> nums (fil0 s) ''f_S'' = Some fs \<and> fs \<noteq> 0 \<longrightarrow>
            fst (store_entry safe_eval FMT i s) \<noteq> Some ParseError
            \<and> fil0 (snd (store_entry safe_eval FMT i s)) =
                fil0 (snd (sort_dict_freqs FMT
                  (s\<lparr>fil0 := (fil0 s)\<lparr>nums := (nums (fil0 s))
                        (objectName (qlineedit s ! i) \<mapsto> x / fs)\<rparr>\<rparr>))))"
proof (intro conjI allI impI)
  fix e assume f: "safe_eval (wtext (qlineedit s ! i)) prev = Inl e"
  with assms show st: "store_entry safe_eval FMT i s = (Some e, s)"
    by (simp add: store_entry_def entry_value_def)
  from assms(1) have same: "s\<lparr>spec_edited := True\<rparr> = s" by simp
  assume "i < length (qlineedit s)"
  with st same show "eventFilter safe_eval FMT i (KeyPress Key_Return) s = (Some e, s)"
    and "eventFilter safe_eval FMT i (KeyPress Key_Enter) s = (Some e, s)"
    and "eventFilter safe_eval FMT i FocusOut s = (Some e, s)"
    by (simp_all add: eventFilter_def)
next
  fix x fs
  assume a: "safe_eval (wtext (qlineedit s ! i)) prev = Inr x
      \<and> nums (fil0 s) ''f_S'' = Some fs \<and> fs \<noteq> 0"
  let ?s1 = "s\<lparr>fil0 := (fil0 s)\<lparr>nums := (nums (fil0 s))(objectName (qlineedit s ! i) \<mapsto> x / fs)\<rparr>\<rparr>"
  from a assms have ev:
    "entry_value safe_eval (fil0 s) (wtext (qlineedit s ! i)) (data_prev s) = Inr (x / fs)"
    by (simp add: entry_value_def lookup_def)
  obtain err s' where r: "sort_dict_freqs FMT ?s1 = (err, s')"
    by (cases "sort_dict_freqs FMT ?s1") auto
  have st: "store_entry safe_eval FMT i s =
      (case err of Some e' \<Rightarrow> (Some e', s')
       | None \<Rightarrow> (None, s'\<lparr>emitted := emitted s' @ [Specs_changed_f_specs], spec_edited := False\<rparr>))"
    using assms(1) ev r by (simp add: store_entry_def Let_def split: option.splits)
  show "fst (store_entry safe_eval FMT i s) \<noteq> Some ParseError"
    using st sort_dict_freqs_error [of FMT ?s1] r by (cases err) auto
  show "fil0 (snd (store_entry safe_eval FMT i s)) = fil0 (snd (sort_dict_freqs FMT ?s1))"
    using st r by (cases err) auto
qed

theorem store_entry_failure_witness:
  "spec_edited abc_edit \<and> data_prev abc_edit = Some (Str ''0.123'')
   \<and> wtext (qlineedit abc_edit ! 0) = Str ''abc''
   \<and> safe_eval_pos (wtext (qlineedit abc_edit ! 0)) (Str ''0.123'') = Inl ParseError
   \<and> 0 < length (qlineedit abc_edit)
   \<and> store_entry safe_eval_pos any_FMT 0 abc_edit = (Some ParseError, abc_edit)
   \<and> eventFilter safe_eval_pos any_FMT 0 (KeyPress Key_Return) abc_edit = (Some ParseError, abc_edit)
   \<and> nums (fil0 (snd (eventFilter safe_eval_pos any_FMT 0 (KeyPress Key_Return) abc_edit))) ''F_PB''
       = Some (123456 / 1000000)
   \<and> safe_eval_pos (Repr (1 / 5)) (Str ''0.123'') = Inr (1 / 5)
   \<and> nums (fil0 (typed_edit (Repr (1 / 5)))) ''f_S'' = Some 1 \<and> (1::real) \<noteq> 0
   \<and> fst (store_entry safe_eval_pos any_FMT 0 (typed_edit (Repr (1 / 5)))) \<noteq> Some ParseError
   \<and> nums (fil0 (snd (store_entry safe_eval_pos any_FMT 0 (typed_edit (Repr (1 / 5)))))) ''F_PB''
       = Some (1 / 5)"
proof -
  let ?t = "typed_edit (Repr (1 / 5))"
  have h: "spec_edited abc_edit" "data_prev abc_edit = Some (Str ''0.123'')"
    by (simp_all add: abc_edit_def typed_edit_def focused_example_def ex_defs)
  have h': "spec_edited ?t" "data_prev ?t = Some (Str ''0.123'')"
    by (simp_all add: typed_edit_def focused_example_def ex_defs)
  have f: "safe_eval_pos (wtext (qlineedit abc_edit ! 0)) (Str ''0.123'') = Inl ParseError"
    by (simp add: abc_edit_def typed_edit_def focused_example_def ex_defs safe_eval_pos_def
        pos_value_def parse_real_def parse_unsigned_def digit_of_def)
  have g: "wtext (qlineedit abc_edit ! 0) = Str ''abc''" "0 < length (qlineedit abc_edit)"
    "nums (fil0 abc_edit) ''F_PB'' = Some (123456 / 1000000)"
    by (simp_all add: abc_edit_def typed_edit_def focused_example_def ex_defs)
  have k: "safe_eval_pos (wtext (qlineedit ?t ! 0)) (Str ''0.123'') = Inr (1 / 5)"
    "safe_eval_pos (Repr (1 / 5)) (Str ''0.123'') = Inr (1 / 5)"
    "nums (fil0 ?t) ''f_S'' = Some 1" "(1::real) \<noteq> 0"
    by (simp_all add: typed_edit_def focused_example_def ex_defs safe_eval_pos_def pos_value_def)
  note th = store_entry_failure [where s = abc_edit and safe_eval = safe_eval_pos and i = 0
      and prev = "Str ''0.123''" and FMT = any_FMT, OF h]
  note th' = store_entry_failure [where s = ?t and safe_eval = safe_eval_pos and i = 0
      and prev = "Str ''0.123''" and FMT = any_FMT, OF h']
  from th f g(2) have a: "store_entry safe_eval_pos any_FMT 0 abc_edit = (Some ParseError, abc_edit)"
    "eventFilter safe_eval_pos any_FMT 0 (KeyPress Key_Return) abc_edit = (Some ParseError, abc_edit)"
    by blast+
  from th' k have b: "fst (store_entry safe_eval_pos any_FMT 0 ?t) \<noteq> Some ParseError"
    and c: "fil0 (snd (store_entry safe_eval_pos any_FMT 0 ?t)) =
        fil0 (snd (sort_dict_freqs any_FMT
          (?t\<lparr>fil0 := (fil0 ?t)\<lparr>nums := (nums (fil0 ?t))
                (objectName (qlineedit ?t ! 0) \<mapsto> (1 / 5) / 1)\<rparr>\<rparr>)))"
    by blast+
  have d: "nums (fil0 (snd (sort_dict_freqs any_FMT
          (?t\<lparr>fil0 := (fil0 ?t)\<lparr>nums := (nums (fil0 ?t))
                (objectName (qlineedit ?t ! 0) \<mapsto> (1 / 5) / 1)\<rparr>\<rparr>)))) ''F_PB'' = Some (1 / 5)"
    by (simp add: typed_edit_def focused_example_def ex_defs run_defs sort_defs)
  from c d have e: "nums (fil0 (snd (store_entry safe_eval_pos any_FMT 0 ?t))) ''F_PB'' = Some (1 / 5)"
    by simp
  show ?thesis using h f g k a b e by simp
qed

subsection \<open>Separation of the values\<close>

lemma runs_Cons: "\<exists>g gs. runs tol (y # zs) = (y # g) # gs"
  by (induction zs arbitrary: y) (auto split: list.splits)

lemma concat_runs: "concat (runs tol xs) = xs"
proof (induction tol xs rule: runs.induct)
  case (3 tol x y zs)
  obtain g gs where "runs tol (y # zs) = (y # g) # gs" using runs_Cons by blast
  with 3 show ?case by (auto split: list.splits)
qed simp_all

lemma runs_gaps:
  "g \<in> set (runs tol xs) \<Longrightarrow> g \<noteq> [] \<and> (\<forall>j. Suc j < length g \<longrightarrow> \<bar>g ! Suc j - g ! j\<bar> < tol)"
proof (induction tol xs arbitrary: g rule: runs.induct)
  case (3 tol x y zs)
  obtain h hs where r: "runs tol (y # zs) = (y # h) # hs" using runs_Cons by blast
  show ?case
  proof (cases "\<bar>y - x\<bar> < tol")
    case True
    with "3.prems" r have "g = x # y # h \<or> g \<in> set hs" by simp
    then show ?thesis
    proof
      assume g: "g = x # y # h"
      from "3.IH"(1) [OF True, of "y # h"] r
      have ih: "\<forall>j. Suc j < length (y # h) \<longrightarrow> \<bar>(y # h) ! Suc j - (y # h) ! j\<bar> < tol"
        by simp
      have "\<bar>g ! Suc j - g ! j\<bar> < tol" if "Suc j < length g" for j
      proof (cases j)
        case 0
        with g True show ?thesis by simp
      next
        case (Suc k)
        with that g ih show ?thesis by simp
      qed
      with g show ?thesis by simp
    next
      assume "g \<in> set hs"
      with "3.IH"(1) [OF True, of g] r show ?thesis by simp
    qed
  next
    case False
    with "3.prems" "3.IH"(2) [OF False, of g] show ?thesis by auto
  qed
qed simp_all

lemma first_run:
  "sorted (y # zs) \<Longrightarrow> w \<in> set (y # zs) \<Longrightarrow> w - y < tol \<Longrightarrow> w \<in> set (hd (runs tol (y # zs)))"
proof (induction zs arbitrary: y)
  case Nil
  then show ?case by simp
next
  case (Cons z zs)
  obtain h hs where r: "runs tol (z # zs) = (z # h) # hs" using runs_Cons by blast
  show ?case
  proof (cases "w = y")
    case True
    then show ?thesis using r by simp
  next
    case False
    with Cons.prems have w: "w \<in> set (z # zs)" by simp
    from Cons.prems w have le: "y \<le> z" "z \<le> w" by auto
    with Cons.prems(3) have gap: "\<bar>z - y\<bar> < tol" and "w - z < tol" by simp_all
    with Cons.IH [of z] Cons.prems(1) w have "w \<in> set (hd (runs tol (z # zs)))" by simp
    with gap r show ?thesis by simp
  qed
qed

lemma in_group_subset: "in_group tol xs v \<Longrightarrow> v \<in> set xs"
proof -
  assume "in_group tol xs v"
  then obtain g where "g \<in> set (runs tol xs)" "v \<in> set g" by (auto simp: in_group_def)
  then have "v \<in> set (concat (runs tol xs))" by auto
  then show ?thesis by (simp add: concat_runs)
qed

lemma in_group_iff_collides:
  "sorted xs \<Longrightarrow> v \<in> set xs \<Longrightarrow> in_group tol xs v = collides tol xs v"
proof (induction tol xs arbitrary: v rule: runs.induct)
  case (1 tol)
  then show ?case by simp
next
  case (2 tol x)
  then show ?case by (simp add: in_group_def collides_def)
next
  case (3 tol x y zs)
  obtain h hs where r: "runs tol (y # zs) = (y # h) # hs" using runs_Cons by blast
  from "3.prems"(1) have s: "sorted (y # zs)" and xy: "x \<le> y" and xall: "\<forall>w \<in> set (y # zs). y \<le> w"
    by auto
  show ?case
  proof (cases "\<bar>y - x\<bar> < tol")
    case True
    note ih = "3.IH"(1) [OF True s]
    have new: "in_group tol (x # y # zs) u = (u = x \<or> u \<in> set (y # h) \<or> in_group tol (y # zs) u)" for u
      using True r by (auto simp: in_group_def)
    show ?thesis
    proof (cases "v = x")
      case vx: True
      have "y \<in> set (remove1 x (x # y # zs))" by simp
      with True vx have "collides tol (x # y # zs) v"
        unfolding collides_def by (intro bexI [of _ y]) (simp_all add: abs_minus_commute)
      with vx new [of v] show ?thesis by blast
    next
      case vx: False
      with "3.prems"(2) have v: "v \<in> set (y # zs)" by simp
      have rem: "remove1 v (x # y # zs) = x # remove1 v (y # zs)" using vx by simp
      have col: "collides tol (x # y # zs) v = (\<bar>v - x\<bar> < tol \<or> collides tol (y # zs) v)"
        unfolding collides_def rem by auto
      show ?thesis
      proof
        assume "in_group tol (x # y # zs) v"
        with new [of v] vx have "v \<in> set (y # h) \<or> in_group tol (y # zs) v" by blast
        then show "collides tol (x # y # zs) v"
        proof
          assume vh: "v \<in> set (y # h)"
          show ?thesis
          proof (cases "h = []")
            case True
            with vh have "v = y" by simp
            with \<open>\<bar>y - x\<bar> < tol\<close> col show ?thesis by simp
          next
            case False
            with vh r have "in_group tol (y # zs) v"
              unfolding in_group_def by (intro bexI [of _ "y # h"]) (auto simp: Suc_lessI)
            with ih [OF v] col show ?thesis by simp
          qed
        next
          assume "in_group tol (y # zs) v"
          with ih [OF v] col show ?thesis by simp
        qed
      next
        assume "collides tol (x # y # zs) v"
        with col have "\<bar>v - x\<bar> < tol \<or> collides tol (y # zs) v" by simp
        then show "in_group tol (x # y # zs) v"
        proof
          assume a: "\<bar>v - x\<bar> < tol"
          from xall v have "y \<le> v" by blast
          with xy a have "v - y < tol" by simp
          from first_run [OF s v this] r have "v \<in> set (y # h)" by simp
          with new [of v] show ?thesis by blast
        next
          assume "collides tol (y # zs) v"
          with ih [OF v] new [of v] show ?thesis by blast
        qed
      qed
    qed
  next
    case False
    note ih = "3.IH"(2) [OF False s]
    from False xy have gap: "tol \<le> y - x" by simp
    have new: "in_group tol (x # y # zs) u = in_group tol (y # zs) u" for u
      using False by (auto simp: in_group_def)
    have far: "\<not> \<bar>w - x\<bar> < tol" if "w \<in> set (y # zs)" for w
    proof -
      from xall that have "y \<le> w" by blast
      with gap show ?thesis by simp
    qed
    show ?thesis
    proof (cases "v \<in> set (y # zs)")
      case v: True
      have col: "collides tol (x # y # zs) v = collides tol (y # zs) v"
      proof (cases "v = x")
        case True
        from far [OF v] True gap have "tol \<le> 0" by simp
        then have "\<not> collides tol (x # y # zs) v" "\<not> collides tol (y # zs) v"
          by (auto simp: collides_def)
        then show ?thesis by simp
      next
        case vx: False
        then have "remove1 v (x # y # zs) = x # remove1 v (y # zs)" by simp
        then show ?thesis unfolding collides_def using far [OF v] by auto
      qed
      with ih [OF v] new [of v] show ?thesis by blast
    next
      case v: False
      with "3.prems"(2) have vx: "v = x" by simp
      from v in_group_subset have nf: "\<not> in_group tol (y # zs) v" by blast
      have "\<not> collides tol (x # y # zs) v"
        unfolding collides_def vx using far by (auto simp: abs_minus_commute)
      with nf new [of v] show ?thesis by blast
    qed
  qed
qed

lemma runs_maximal:
  "Suc k < length (runs tol xs) \<Longrightarrow> \<not> \<bar>hd (runs tol xs ! Suc k) - last (runs tol xs ! k)\<bar> < tol"
proof (induction tol xs arbitrary: k rule: runs.induct)
  case (3 tol x y zs)
  obtain h hs where r: "runs tol (y # zs) = (y # h) # hs" using runs_Cons by blast
  show ?case
  proof (cases "\<bar>y - x\<bar> < tol")
    case True
    with r have new: "runs tol (x # y # zs) = (x # y # h) # hs" by simp
    from "3.prems" new have len: "Suc k < length ((y # h) # hs)" by simp
    from "3.IH"(1) [OF True, of k] len r
    have ih: "\<not> \<bar>hd (((y # h) # hs) ! Suc k) - last (((y # h) # hs) ! k)\<bar> < tol" by simp
    show ?thesis
    proof (cases k)
      case 0
      with ih new show ?thesis by simp
    next
      case (Suc k')
      with ih new show ?thesis by simp
    qed
  next
    case False
    with r have new: "runs tol (x # y # zs) = [x] # (y # h) # hs" by simp
    show ?thesis
    proof (cases k)
      case 0
      with False new show ?thesis by simp
    next
      case (Suc k')
      with "3.prems" new have "Suc k' < length (runs tol (y # zs))" using r by simp
      from "3.IH"(2) [OF False this] Suc new r show ?thesis by simp
    qed
  qed
qed simp_all

lemma remove1_nth_set:
  "i < length p \<Longrightarrow> set (remove1 (p ! i) p) = {p ! j | j. j < length p \<and> j \<noteq> i}"
proof (induction p arbitrary: i)
  case Nil
  then show ?case by simp
next
  case (Cons x xs)
  show ?case
  proof (cases i)
    case 0
    have "set xs = {(x # xs) ! j | j. j < length (x # xs) \<and> j \<noteq> 0}"
    proof (intro set_eqI iffI)
      fix w assume "w \<in> set xs"
      then obtain k where "k < length xs" "xs ! k = w" by (auto simp: in_set_conv_nth)
      then have "Suc k < length (x # xs) \<and> Suc k \<noteq> 0 \<and> w = (x # xs) ! Suc k" by simp
      then show "w \<in> {(x # xs) ! j | j. j < length (x # xs) \<and> j \<noteq> 0}" by blast
    next
      fix w assume "w \<in> {(x # xs) ! j | j. j < length (x # xs) \<and> j \<noteq> 0}"
      then obtain j where j: "j < length (x # xs)" "j \<noteq> 0" "w = (x # xs) ! j" by blast
      then obtain k where "j = Suc k" by (cases j) auto
      with j show "w \<in> set xs" by simp
    qed
    with 0 show ?thesis by simp
  next
    case (Suc k)
    with Cons.prems have k: "k < length xs" by simp
    let ?R = "{(x # xs) ! j | j. j < length (x # xs) \<and> j \<noteq> Suc k}"
    have R: "?R = insert x {xs ! j | j. j < length xs \<and> j \<noteq> k}"
    proof (intro set_eqI iffI)
      fix w assume "w \<in> ?R"
      then obtain j where j: "j < length (x # xs)" "j \<noteq> Suc k" "w = (x # xs) ! j" by blast
      show "w \<in> insert x {xs ! j | j. j < length xs \<and> j \<noteq> k}"
      proof (cases j)
        case 0
        with j show ?thesis by simp
      next
        case (Suc j')
        with j have "j' < length xs \<and> j' \<noteq> k \<and> w = xs ! j'" by simp
        then show ?thesis by blast
      qed
    next
      fix w assume "w \<in> insert x {xs ! j | j. j < length xs \<and> j \<noteq> k}"
      then consider "w = x" | j where "j < length xs" "j \<noteq> k" "w = xs ! j" by blast
      then show "w \<in> ?R"
      proof cases
        case 1
        then have "0 < length (x # xs) \<and> 0 \<noteq> Suc k \<and> w = (x # xs) ! 0" by simp
        then show ?thesis by blast
      next
        case 2
        then have "Suc j < length (x # xs) \<and> Suc j \<noteq> Suc k \<and> w = (x # xs) ! Suc j" by simp
        then show ?thesis by blast
      qed
    qed
    show ?thesis
    proof (cases "xs ! k = x")
      case True
      have "set xs = insert x {xs ! j | j. j < length xs \<and> j \<noteq> k}"
      proof (intro set_eqI iffI)
        fix w assume "w \<in> set xs"
        then obtain j where j: "j < length xs" "xs ! j = w" by (auto simp: in_set_conv_nth)
        show "w \<in> insert x {xs ! j | j. j < length xs \<and> j \<noteq> k}"
        proof (cases "j = k")
          case True
          with j \<open>xs ! k = x\<close> show ?thesis by simp
        next
          case False
          with j show ?thesis by blast
        qed
      next
        fix w assume "w \<in> insert x {xs ! j | j. j < length xs \<and> j \<noteq> k}"
        with True k show "w \<in> set xs" by (auto simp: in_set_conv_nth)
      qed
      with True Suc R show ?thesis by simp
    next
      case False
      with Suc R Cons.IH [OF k] show ?thesis by simp
    qed
  qed
qed

lemma set_remove1_sort: "set (remove1 v (sort p)) = set (remove1 v p)"
proof -
  have "mset (remove1 v (sort p)) = mset (remove1 v p)" by simp
  then show ?thesis by (rule mset_eq_setD)
qed

lemma collides_index:
  "i < length p \<Longrightarrow>
     collides tol (sort p) (p ! i) = (\<exists>j < length p. j \<noteq> i \<and> \<bar>p ! i - p ! j\<bar> < tol)"
  unfolding collides_def set_remove1_sort
  by (auto simp: remove1_nth_set)

lemma check_separation_iff:
  assumes "i < length p"
  shows "i \<in> check_separation p tol = (\<exists>j < length p. j \<noteq> i \<and> \<bar>p ! i - p ! j\<bar> < tol)"
proof -
  from assms have "p ! i \<in> set (sort p)" by simp
  with in_group_iff_collides [of "sort p" "p ! i" tol]
  have "in_group tol (sort p) (p ! i) = collides tol (sort p) (p ! i)" by simp
  with assms collides_index [OF assms, of tol] show ?thesis
    by (simp add: check_separation_def)
qed

lemma ident_iff:
  "ident p \<noteq> [] = (\<exists>i < length p. \<exists>j < length p. j \<noteq> i \<and> \<bar>p ! i - p ! j\<bar> < MIN_FREQ_STEP)"
proof
  assume "ident p \<noteq> []"
  then obtain g where g: "g \<in> set (runs MIN_FREQ_STEP (sort p))" "1 < length g"
    by (auto simp: ident_def unique_roots_def Let_def filter_empty_conv)
  from g(2) obtain x where x: "x \<in> set g" by (cases g) auto
  with g have "x \<in> set (concat (runs MIN_FREQ_STEP (sort p)))" by auto
  then have "x \<in> set p" by (simp add: concat_runs)
  then obtain i where i: "i < length p" "p ! i = x" by (auto simp: in_set_conv_nth)
  with g x have "i \<in> check_separation p MIN_FREQ_STEP"
    by (auto simp: check_separation_def in_group_def)
  with check_separation_iff [OF i(1)] i(1)
  show "\<exists>i < length p. \<exists>j < length p. j \<noteq> i \<and> \<bar>p ! i - p ! j\<bar> < MIN_FREQ_STEP" by blast
next
  assume "\<exists>i < length p. \<exists>j < length p. j \<noteq> i \<and> \<bar>p ! i - p ! j\<bar> < MIN_FREQ_STEP"
  then obtain i where i: "i < length p" "\<exists>j < length p. j \<noteq> i \<and> \<bar>p ! i - p ! j\<bar> < MIN_FREQ_STEP"
    by blast
  with check_separation_iff [OF i(1), of MIN_FREQ_STEP] have "i \<in> check_separation p MIN_FREQ_STEP"
    by simp
  then obtain g where "g \<in> set (runs MIN_FREQ_STEP (sort p))" "1 < length g"
    by (auto simp: check_separation_def in_group_def)
  then show "ident p \<noteq> []"
    by (auto simp: ident_def unique_roots_def Let_def filter_empty_conv)
qed

text \<open>
  C6. The separation check sorts the values and cuts the sorted list into runs: the
  runs together are the sorted list, consecutive values of a run differ by less than
  the threshold, and the last value of a run and the first of the next differ by at
  least the threshold. A value is in a run of more than one value, and so reported,
  exactly when another of the values differs from it by less than the threshold; the
  widget logs its warning exactly when two of the visible values differ by less than
  \<^verbatim>\<open>MIN_FREQ_STEP\<close>. For 0.1, 0.10005 and 0.3 the first two form a group and 0.3 is
  in none.
\<close>

theorem check_separation_groups:
  "concat (runs tol (sort p)) = sort p
   \<and> (\<forall>g \<in> set (runs tol (sort p)).
         g \<noteq> [] \<and> (\<forall>j. Suc j < length g \<longrightarrow> \<bar>g ! Suc j - g ! j\<bar> < tol))
   \<and> (\<forall>k. Suc k < length (runs tol (sort p)) \<longrightarrow>
         \<not> \<bar>hd (runs tol (sort p) ! Suc k) - last (runs tol (sort p) ! k)\<bar> < tol)
   \<and> (\<forall>i < length p.
         i \<in> check_separation p tol = (\<exists>j < length p. j \<noteq> i \<and> \<bar>p ! i - p ! j\<bar> < tol))
   \<and> (ident p \<noteq> [] = (\<exists>i < length p. \<exists>j < length p. j \<noteq> i \<and> \<bar>p ! i - p ! j\<bar> < MIN_FREQ_STEP))
   \<and> runs MIN_FREQ_STEP (sort [1 / 10, 10005 / 100000, 3 / 10]) = [[1 / 10, 10005 / 100000], [3 / 10]]
   \<and> check_separation [1 / 10, 10005 / 100000, 3 / 10] MIN_FREQ_STEP = {0, 1}"
proof (intro conjI)
  show "concat (runs tol (sort p)) = sort p" by (rule concat_runs)
  show "\<forall>g \<in> set (runs tol (sort p)).
         g \<noteq> [] \<and> (\<forall>j. Suc j < length g \<longrightarrow> \<bar>g ! Suc j - g ! j\<bar> < tol)"
    using runs_gaps by blast
  show "\<forall>k. Suc k < length (runs tol (sort p)) \<longrightarrow>
         \<not> \<bar>hd (runs tol (sort p) ! Suc k) - last (runs tol (sort p) ! k)\<bar> < tol"
    using runs_maximal by blast
  show "\<forall>i < length p.
         i \<in> check_separation p tol = (\<exists>j < length p. j \<noteq> i \<and> \<bar>p ! i - p ! j\<bar> < tol)"
    using check_separation_iff by blast
  show "ident p \<noteq> [] = (\<exists>i < length p. \<exists>j < length p. j \<noteq> i \<and> \<bar>p ! i - p ! j\<bar> < MIN_FREQ_STEP)"
    by (rule ident_iff)
  show r: "runs MIN_FREQ_STEP (sort [1 / 10, 10005 / 100000, 3 / 10]) = [[1 / 10, 10005 / 100000], [3 / 10]]"
    by (simp add: MIN_FREQ_STEP_def)
  show "check_separation [1 / 10, 10005 / 100000, 3 / 10] MIN_FREQ_STEP = {0, 1}"
    unfolding check_separation_def in_group_def r
    by (auto simp: less_Suc_eq numeral_3_eq_3)
qed

theorem check_separation_groups_witness:
  "[1 / 10, 10005 / 100000] \<in> set (runs MIN_FREQ_STEP (sort [1 / 10, 10005 / 100000, 3 / 10]))
   \<and> Suc 0 < length [1 / 10, 10005 / 100000 :: real]
   \<and> \<bar>[1 / 10, 10005 / 100000] ! Suc 0 - [1 / 10, 10005 / 100000] ! 0\<bar> < MIN_FREQ_STEP
   \<and> Suc 0 < length (runs MIN_FREQ_STEP (sort [1 / 10, 10005 / 100000, 3 / 10]))
   \<and> 2 < length [1 / 10, 10005 / 100000, 3 / 10 :: real]
   \<and> 0 \<in> check_separation [1 / 10, 10005 / 100000, 3 / 10] MIN_FREQ_STEP
   \<and> 1 \<in> check_separation [1 / 10, 10005 / 100000, 3 / 10] MIN_FREQ_STEP
   \<and> 2 \<notin> check_separation [1 / 10, 10005 / 100000, 3 / 10] MIN_FREQ_STEP
   \<and> ident [1 / 10, 10005 / 100000, 3 / 10] \<noteq> []"
proof -
  let ?p = "[1 / 10, 10005 / 100000, 3 / 10 :: real]"
  note th = check_separation_groups [of MIN_FREQ_STEP ?p]
  from th have r: "runs MIN_FREQ_STEP (sort ?p) = [[1 / 10, 10005 / 100000], [3 / 10]]"
    and c: "check_separation ?p MIN_FREQ_STEP = {0, 1}" by blast+
  from th have i: "(ident ?p \<noteq> []) =
      (\<exists>i < length ?p. \<exists>j < length ?p. j \<noteq> i \<and> \<bar>?p ! i - ?p ! j\<bar> < MIN_FREQ_STEP)"
    by blast
  have "\<exists>i < length ?p. \<exists>j < length ?p. j \<noteq> i \<and> \<bar>?p ! i - ?p ! j\<bar> < MIN_FREQ_STEP"
    by (intro exI [of _ 0] conjI exI [of _ 1]) (simp_all add: MIN_FREQ_STEP_def)
  with i have "ident ?p \<noteq> []" by blast
  with r c show ?thesis by (simp add: MIN_FREQ_STEP_def)
qed

end
